theory Spec2Isabelle
  imports Complex_Main "HOL-Library.Sublist"
begin

section \<open>JavaScript strings\<close>

text \<open>
  A JavaScript string is a sequence of UTF-16 code units. The embedding keeps
  the code units as natural numbers, so that the Cyrillic literals of the
  source and the Unicode white space recognised by \<^verbatim>\<open>trim\<close> and \<^verbatim>\<open>\s\<close>
  are represented exactly. \<open>js\<close> turns an ASCII literal into its code units.
\<close>

type_synonym jschar = nat
type_synonym jsstring = "jschar list"

definition js :: "string \<Rightarrow> jsstring" where
  "js s = map of_char s"

text \<open>\<^verbatim>\<open>s.startsWith(p)\<close>.\<close>

definition js_startsWith :: "jsstring \<Rightarrow> jsstring \<Rightarrow> bool" where
  "js_startsWith s p = prefix p s"

text \<open>\<^verbatim>\<open>s.includes(m)\<close>: \<open>m\<close> occurs at some position of \<open>s\<close>.\<close>

fun js_includes :: "jsstring \<Rightarrow> jsstring \<Rightarrow> bool" where
  "js_includes [] m = (m = [])"
| "js_includes (c # cs) m = (prefix m (c # cs) \<or> js_includes cs m)"

text \<open>
  The first occurrence of a separator: the text before it and the text after
  it, or \<open>None\<close> when the separator does not occur.
\<close>

fun split_first :: "jsstring \<Rightarrow> jsstring \<Rightarrow> (jsstring \<times> jsstring) option" where
  "split_first sep [] = (if sep = [] then Some ([], []) else None)"
| "split_first sep (c # cs) =
     (if prefix sep (c # cs) then Some ([], drop (length sep) (c # cs))
      else (case split_first sep cs of
              None \<Rightarrow> None
            | Some (b, a) \<Rightarrow> Some (c # b, a)))"

lemma split_first_length:
  "split_first sep s = Some (b, a) \<Longrightarrow> length b + length sep + length a = length s"
proof (induction s arbitrary: b)
  case Nil
  then show ?case by (simp split: if_splits)
next
  case (Cons c cs)
  show ?case
  proof (cases "prefix sep (c # cs)")
    case True
    then have "length sep \<le> length (c # cs)" by (rule prefix_length_le)
    with True Cons.prems show ?thesis by auto
  next
    case False
    with Cons.prems obtain b' where b': "split_first sep cs = Some (b', a)" "b = c # b'"
      by (auto split: option.splits)
    from Cons.IH [OF b'(1)] b'(2) show ?thesis by simp
  qed
qed

text \<open>
  \<^verbatim>\<open>s.split(sep)\<close> for a string separator: the pieces between the successive
  occurrences of \<open>sep\<close>, found from left to right; with the empty separator,
  the code units one by one.
\<close>

function js_split :: "jsstring \<Rightarrow> jsstring \<Rightarrow> jsstring list" where
  "js_split s sep =
     (if sep = [] then map (\<lambda>c. [c]) s
      else (case split_first sep s of
              None \<Rightarrow> [s]
            | Some (b, a) \<Rightarrow> b # js_split a sep))"
  by pat_completeness auto
termination
proof (relation "measure (\<lambda>(s, sep). length s)")
  show "wf (measure (\<lambda>(s, sep). length s))" by simp
next
  fix s sep :: jsstring and x2 :: "jsstring \<times> jsstring" and b a :: jsstring
  assume "sep \<noteq> []" "split_first sep s = Some x2" "(b, a) = x2"
  then have "length b + length sep + length a = length s"
    using split_first_length [of sep s b a] by simp
  with \<open>sep \<noteq> []\<close> show "((a, sep), (s, sep)) \<in> measure (\<lambda>(s, sep). length s)"
    by (cases sep) auto
qed

declare js_split.simps [simp del]

text \<open>\<^verbatim>\<open>a[i]\<close> on an array: \<^verbatim>\<open>undefined\<close> (here \<open>None\<close>) out of range.\<close>

definition js_index :: "'a list \<Rightarrow> nat \<Rightarrow> 'a option" where
  "js_index xs i = (if i < length xs then Some (xs ! i) else None)"

text \<open>
  White space as \<^verbatim>\<open>trim\<close> and the regular-expression class \<^verbatim>\<open>\s\<close> see it:
  the ECMAScript WhiteSpace and LineTerminator code points.
\<close>

definition is_space :: "jschar \<Rightarrow> bool" where
  "is_space c \<longleftrightarrow>
     c = 0x09 \<or> c = 0x0A \<or> c = 0x0B \<or> c = 0x0C \<or> c = 0x0D \<or> c = 0x20 \<or> c = 0xA0 \<or>
     c = 0x1680 \<or> (0x2000 \<le> c \<and> c \<le> 0x200A) \<or> c = 0x2028 \<or> c = 0x2029 \<or>
     c = 0x202F \<or> c = 0x205F \<or> c = 0x3000 \<or> c = 0xFEFF"

text \<open>\<^verbatim>\<open>s.trim()\<close>.\<close>

definition js_trim :: "jsstring \<Rightarrow> jsstring" where
  "js_trim s = rev (dropWhile is_space (rev (dropWhile is_space s)))"

section \<open>The regular expressions of the source\<close>

text \<open>
  Every regular expression of the source is a sequence of character classes,
  each taken once or under a greedy quantifier \<^verbatim>\<open>*\<close>, \<^verbatim>\<open>+\<close> or \<^verbatim>\<open>{n,}\<close>.
  \<open>rmatch r s\<close> matches \<open>r\<close> at the start of \<open>s\<close> the way the backtracking
  matcher of ECMAScript does: a quantified class first takes as many code units
  as it can and gives them back one by one while the rest of the expression
  fails. The result is the text left after the match.
\<close>

datatype quant = Once | AtLeast nat

type_synonym regex = "((jschar \<Rightarrow> bool) \<times> quant) list"

fun rmatch :: "regex \<Rightarrow> jsstring \<Rightarrow> jsstring option" where
  "rmatch [] s = Some s"
| "rmatch ((P, Once) # r) [] = None"
| "rmatch ((P, Once) # r) (c # cs) = (if P c then rmatch r cs else None)"
| "rmatch ((P, AtLeast n) # r) [] = (if n = 0 then rmatch r [] else None)"
| "rmatch ((P, AtLeast n) # r) (c # cs) =
     (if P c then
        (case rmatch ((P, AtLeast (n - 1)) # r) cs of
           Some t \<Rightarrow> Some t
         | None \<Rightarrow> if n = 0 then rmatch r (c # cs) else None)
      else if n = 0 then rmatch r (c # cs) else None)"

text \<open>
  \<^verbatim>\<open>s.match(r)\<close> without the \<^verbatim>\<open>g\<close> flag: the text of the leftmost match.
\<close>

fun rsearch :: "regex \<Rightarrow> jsstring \<Rightarrow> jsstring option" where
  "rsearch r [] = (case rmatch r [] of Some t \<Rightarrow> Some [] | None \<Rightarrow> None)"
| "rsearch r (c # cs) =
     (case rmatch r (c # cs) of
        Some t \<Rightarrow> Some (take (length (c # cs) - length t) (c # cs))
      | None \<Rightarrow> rsearch r cs)"

text \<open>
  \<^verbatim>\<open>s.replace(r, ...)\<close> with the \<^verbatim>\<open>g\<close> flag: from left to right, each match
  is replaced by \<open>f\<close> of its text and the scan goes on after the match; a code
  unit at which nothing matches is copied. (An empty match inserts the
  replacement and moves on by one code unit.)
\<close>

function replaceAll :: "regex \<Rightarrow> (jsstring \<Rightarrow> jsstring) \<Rightarrow> jsstring \<Rightarrow> jsstring" where
  "replaceAll r f [] = (case rmatch r [] of Some t \<Rightarrow> f [] | None \<Rightarrow> [])"
| "replaceAll r f (c # cs) =
     (case rmatch r (c # cs) of
        None \<Rightarrow> c # replaceAll r f cs
      | Some t \<Rightarrow>
          if length t < length (c # cs)
          then f (take (length (c # cs) - length t) (c # cs)) @ replaceAll r f t
          else f [] @ c # replaceAll r f cs)"
  by pat_completeness auto
termination
  by (relation "measure (\<lambda>(r, f, s). length s)") auto

section \<open>The allow-list (whitelistManager.js)\<close>

text \<open>
  \<^verbatim>\<open>String.prototype.toLowerCase\<close> follows the Unicode case tables of the
  JavaScript engine, which are no part of the repository. The functions that
  call it take it as the parameter \<open>toLowerCase\<close>; every theorem about them holds
  for every such function. \<open>ascii_toLowerCase\<close> is the instance used on
  concrete inputs: it agrees with the engine on strings of ASCII code units.
\<close>

definition ascii_toLowerCase :: "jsstring \<Rightarrow> jsstring" where
  "ascii_toLowerCase s = map (\<lambda>c. if 65 \<le> c \<and> c \<le> 90 then c + 32 else c) s"

text \<open>
  \<^verbatim>\<open>getWhitelist()\<close> reads the list of entries from the settings file; the
  functions below take the list it returns as the argument \<open>whitelist\<close>.
\<close>

definition isDomainWildcard :: "jsstring \<Rightarrow> bool" where
  "isDomainWildcard pattern \<longleftrightarrow>
     js_startsWith pattern (js ''*@'') \<and> length (js_split pattern (js ''@'')) = 2"

definition matchesDomainWildcard :: "(jsstring \<Rightarrow> jsstring) \<Rightarrow> jsstring \<Rightarrow> jsstring \<Rightarrow> bool" where
  "matchesDomainWildcard toLowerCase email pattern =
     (if email = [] \<or> pattern = [] \<or> \<not> isDomainWildcard pattern then False
      else
        let emailParts = js_split email (js ''@'') in
        if length emailParts \<noteq> 2 then False
        else
          let patternDomain = toLowerCase (js_split pattern (js ''@'') ! 1);
              emailDomain = toLowerCase (emailParts ! 1)
          in emailDomain = patternDomain)"

text \<open>The \<^verbatim>\<open>for\<close> loop of \<^verbatim>\<open>isWhitelisted\<close> over the wild-card entries.\<close>

fun anyWildcardMatches :: "(jsstring \<Rightarrow> jsstring) \<Rightarrow> jsstring \<Rightarrow> jsstring list \<Rightarrow> bool" where
  "anyWildcardMatches toLowerCase email [] = False"
| "anyWildcardMatches toLowerCase email (pattern # rest) =
     (if matchesDomainWildcard toLowerCase email pattern then True
      else anyWildcardMatches toLowerCase email rest)"

definition isWhitelisted :: "(jsstring \<Rightarrow> jsstring) \<Rightarrow> jsstring list \<Rightarrow> jsstring \<Rightarrow> bool" where
  "isWhitelisted toLowerCase whitelist email =
     (if length whitelist = 0 then True
      else if email \<in> set whitelist then True
      else
        let domainWildcards = filter isDomainWildcard whitelist
        in anyWildcardMatches toLowerCase email domainWildcards)"

section \<open>Routing to topics (topicManager.js)\<close>

text \<open>
  The settings record of \<^verbatim>\<open>topic_settings.json\<close>: \<^verbatim>\<open>defaultTopic\<close> is a number or
  \<^verbatim>\<open>null\<close>, \<^verbatim>\<open>topicMappings\<close> an object from keys to numbers. The functions take
  the record returned by \<^verbatim>\<open>getTopicSettings()\<close> as the argument \<open>settings\<close>.
\<close>

record topicSettings =
  defaultTopic :: "int option"
  topicMappings :: "jsstring \<rightharpoonup> int"

definition getDefaultTopic :: "topicSettings \<Rightarrow> int option" where
  "getDefaultTopic settings = defaultTopic settings"

definition getTopicForEmail ::
  "(jsstring \<Rightarrow> jsstring) \<Rightarrow> topicSettings \<Rightarrow> jsstring \<Rightarrow> int option" where
  "getTopicForEmail toLowerCase settings email0 =
     (if email0 = [] then getDefaultTopic settings
      else
        let email = toLowerCase email0 in
        if topicMappings settings email \<noteq> None then topicMappings settings email
        else
          (case js_index (js_split email (js ''@'')) 1 of
             None \<Rightarrow> defaultTopic settings
           | Some domain \<Rightarrow>
               if domain \<noteq> [] \<and> topicMappings settings (js ''*@'' @ domain) \<noteq> None
               then topicMappings settings (js ''*@'' @ domain)
               else defaultTopic settings))"

section \<open>Sender and comment extraction (emailService.js)\<close>

text \<open>
  The \<^verbatim>\<open>from\<close> field of a parsed mail, in the shapes \<^verbatim>\<open>extractSenderEmail\<close> and
  \<^verbatim>\<open>formatSender\<close> tell apart: absent, a string, an object with \<^verbatim>\<open>name\<close> and
  \<^verbatim>\<open>address\<close> properties, or an array of strings and such objects.
\<close>

record addressObject =
  name :: "jsstring option"
  address :: "jsstring option"

datatype addressElem = ElemString jsstring | ElemObject addressObject

datatype addressField =
    FieldAbsent
  | FieldString jsstring
  | FieldObject addressObject
  | FieldArray "addressElem list"

text \<open>A property value is truthy when it is present and not the empty string.\<close>

definition truthy :: "jsstring option \<Rightarrow> bool" where
  "truthy v \<longleftrightarrow> v \<noteq> None \<and> v \<noteq> Some []"

text \<open>
  The string branch of \<^verbatim>\<open>extractSenderEmail\<close>:
  \<^verbatim>\<open>from.match(/<([^>]+)>/) || from.match(/([^\s]+@[^\s]+)/)\<close>, then group 1 in
  lower case, or the whole string in lower case when neither matches.
\<close>

definition angleAddress :: regex where
  "angleAddress = [(\<lambda>c. c = 0x3C, Once), (\<lambda>c. c \<noteq> 0x3E, AtLeast 1), (\<lambda>c. c = 0x3E, Once)]"

definition bareAddress :: regex where
  "bareAddress = [(\<lambda>c. \<not> is_space c, AtLeast 1), (\<lambda>c. c = 0x40, Once), (\<lambda>c. \<not> is_space c, AtLeast 1)]"

definition extractSenderString :: "(jsstring \<Rightarrow> jsstring) \<Rightarrow> jsstring \<Rightarrow> jsstring" where
  "extractSenderString toLowerCase from =
     (case rsearch angleAddress from of
        Some m \<Rightarrow> toLowerCase (butlast (tl m))
      | None \<Rightarrow>
          (case rsearch bareAddress from of
             Some m \<Rightarrow> toLowerCase m
           | None \<Rightarrow> toLowerCase from))"

fun extractSenderEmail :: "(jsstring \<Rightarrow> jsstring) \<Rightarrow> addressField \<Rightarrow> jsstring" where
  "extractSenderEmail toLowerCase FieldAbsent = []"
| "extractSenderEmail toLowerCase (FieldString from) =
     (if from = [] then [] else extractSenderString toLowerCase from)"
| "extractSenderEmail toLowerCase (FieldObject from) =
     (if truthy (address from) then toLowerCase (the (address from)) else [])"
| "extractSenderEmail toLowerCase (FieldArray []) = []"
| "extractSenderEmail toLowerCase (FieldArray (ElemString firstFrom # rest)) =
     (if firstFrom = [] then [] else extractSenderString toLowerCase firstFrom)"
| "extractSenderEmail toLowerCase (FieldArray (ElemObject firstFrom # rest)) =
     (if truthy (address firstFrom) then toLowerCase (the (address firstFrom)) else [])"

text \<open>The marker strings of \<^verbatim>\<open>extractForwardedText\<close>, in the order of the source.\<close>

definition markers :: "jsstring list" where
  "markers =
    [js ''---------- Forwarded message ---------'',
     js ''---------- Forwarded Message ----------'',
     js ''---------- Forwarded message ----------'',
     js ''---------- '' @
       [0x41F, 0x435, 0x440, 0x435, 0x441, 0x43B, 0x430, 0x43D, 0x43D, 0x43E, 0x435] @ js '' '' @
       [0x441, 0x43E, 0x43E, 0x431, 0x449, 0x435, 0x43D, 0x438, 0x435] @ js '' ---------'',
     js ''---------- '' @
       [0x41F, 0x435, 0x440, 0x435, 0x441, 0x44B, 0x43B, 0x430, 0x435, 0x43C, 0x43E, 0x435] @ js '' '' @
       [0x441, 0x43E, 0x43E, 0x431, 0x449, 0x435, 0x43D, 0x438, 0x435] @ js '' ---------'']"

text \<open>
  The four replacements applied to the text before the marker.
  \<^enum> \<^verbatim>\<open>/\n\s*\n\s*\n+/g\<close> by two line feeds;
  \<^enum> \<^verbatim>\<open>/([^\.\,\:\;\!\?\n])\n([a-z\u0430-\u044f\u0451])/gi\<close> by \<^verbatim>\<open>'$1 $2'\<close>
    (the source writes the Cyrillic letters of the class themselves);
  \<^enum> \<^verbatim>\<open>/\n\s+/g\<close> by one line feed;
  \<^enum> \<^verbatim>\<open>/\s{2,}/g\<close> by one space.

  Under the \<^verbatim>\<open>i\<close> flag a code unit belongs to the letter class when its
  upper-case form is one of A-Z, U+0410-U+042F or U+0401: the Latin and the
  Russian letters in both cases, and the Cyrillic variant letters U+1C80-U+1C86,
  whose upper-case forms lie in U+0410-U+042F.
\<close>

definition is_newline :: "jschar \<Rightarrow> bool" where
  "is_newline c \<longleftrightarrow> c = 0x0A"

definition not_punct :: "jschar \<Rightarrow> bool" where
  "not_punct c \<longleftrightarrow> c \<notin> set (js ''.,:;!?'') \<and> c \<noteq> 0x0A"

definition is_letter :: "jschar \<Rightarrow> bool" where
  "is_letter c \<longleftrightarrow>
     (0x41 \<le> c \<and> c \<le> 0x5A) \<or> (0x61 \<le> c \<and> c \<le> 0x7A) \<or>
     (0x410 \<le> c \<and> c \<le> 0x44F) \<or> c = 0x401 \<or> c = 0x451 \<or>
     (0x1C80 \<le> c \<and> c \<le> 0x1C86)"

definition collapseBlankLines :: "jsstring \<Rightarrow> jsstring" where
  "collapseBlankLines =
     replaceAll [(is_newline, Once), (is_space, AtLeast 0), (is_newline, Once),
                 (is_space, AtLeast 0), (is_newline, AtLeast 1)]
       (\<lambda>m. [0x0A, 0x0A])"

definition joinWrappedLines :: "jsstring \<Rightarrow> jsstring" where
  "joinWrappedLines =
     replaceAll [(not_punct, Once), (is_newline, Once), (is_letter, Once)]
       (\<lambda>m. [m ! 0, 0x20, m ! 2])"

definition trimLineStarts :: "jsstring \<Rightarrow> jsstring" where
  "trimLineStarts = replaceAll [(is_newline, Once), (is_space, AtLeast 1)] (\<lambda>m. [0x0A])"

definition collapseSpaces :: "jsstring \<Rightarrow> jsstring" where
  "collapseSpaces = replaceAll [(is_space, AtLeast 2)] (\<lambda>m. [0x20])"

definition normalizeComment :: "jsstring \<Rightarrow> jsstring" where
  "normalizeComment textBefore =
     collapseSpaces (trimLineStarts (joinWrappedLines (collapseBlankLines textBefore)))"

text \<open>
  The loop over the markers: the first marker of the list that the text
  includes decides; the loop is left at it (\<^verbatim>\<open>break\<close>) whether or not a comment
  was returned.
\<close>

fun scanMarkers :: "jsstring list \<Rightarrow> jsstring \<Rightarrow> jsstring option" where
  "scanMarkers [] text = None"
| "scanMarkers (marker # rest) text =
     (if js_includes text marker then
        (let parts = js_split text marker in
         if length parts > 1 then
           (let textBefore = js_trim (parts ! 0) in
            if textBefore \<noteq> [] then Some (normalizeComment textBefore) else None)
         else None)
      else scanMarkers rest text)"

text \<open>
  \<^verbatim>\<open>extractForwardedText(mail)\<close>, a function of \<^verbatim>\<open>mail.text\<close>, which is absent
  (\<open>None\<close>) or a string; \<^verbatim>\<open>null\<close> is \<open>None\<close>.
\<close>

definition extractForwardedText :: "jsstring option \<Rightarrow> jsstring option" where
  "extractForwardedText text =
     (if \<not> truthy text then None else scanMarkers markers (the text))"

section \<open>The document renderer (pdfConverter.js)\<close>

text \<open>
  A parsed mail. \<^verbatim>\<open>from\<close>, \<^verbatim>\<open>to\<close> and \<^verbatim>\<open>cc\<close> come in the shapes above;
  \<^verbatim>\<open>subject\<close>, \<^verbatim>\<open>text\<close> and \<^verbatim>\<open>html\<close> are strings or absent; \<^verbatim>\<open>date\<close> is a time
  in milliseconds or absent. Of an attachment the renderer reads \<^verbatim>\<open>fileName\<close>
  and \<^verbatim>\<open>length\<close>.
\<close>

record attachment =
  fileName :: "jsstring option"
  att_length :: "nat option"

record mail =
  m_from :: addressField
  m_to :: addressField
  m_cc :: addressField
  m_subject :: "jsstring option"
  m_date :: "int option"
  m_text :: "jsstring option"
  m_html :: "jsstring option"
  m_attachments :: "attachment list"

text \<open>\<^verbatim>\<open>v || d\<close> on a string property, and \<^verbatim>\<open>${v}\<close> in a template literal.\<close>

definition orElse :: "jsstring option \<Rightarrow> jsstring \<Rightarrow> jsstring" where
  "orElse v d = (if truthy v then the v else d)"



































text \<open>
  A thrown value: an error object with its \<^verbatim>\<open>message\<close> property, or the
  \<^verbatim>\<open>ReferenceError\<close> raised by the evaluation of an identifier that has no
  binding in scope.
\<close>

datatype jserror = JsError "jsstring option" | ReferenceError jsstring

fun message :: "jserror \<Rightarrow> jsstring option" where
  "message (JsError m) = m"
| "message (ReferenceError x) = Some (x @ js '' is not defined'')"

text \<open>
  \<^verbatim>\<open>convertEmailToPdf\<close>. The browser and its pages are outside the repository;
  the function is modelled over the outcomes of its awaited steps:
  \<open>launch\<close> for \<^verbatim>\<open>puppeteer.launch\<close> (before the \<^verbatim>\<open>try\<close>), \<open>primary\<close> for the body
  of the \<^verbatim>\<open>try\<close> block (the rich rendering), \<open>fallback\<close> for the body of the
  inner \<^verbatim>\<open>try\<close> in the \<^verbatim>\<open>catch\<close> block (the text rendering of
  \<^verbatim>\<open>createSimpleTextEmail\<close>), and \<open>close\<close> for \<^verbatim>\<open>browser.close()\<close> in the
  \<^verbatim>\<open>finally\<close> block, whose error replaces whatever the \<^verbatim>\<open>try\<close> statement
  had produced. The result is the list of the steps run and the value returned
  or the error thrown.
\<close>

datatype stage = LaunchBrowser | PrimaryRendering | FallbackRendering | CloseBrowser

definition convertEmailToPdf ::
  "jserror + unit \<Rightarrow> jserror + 'pdf \<Rightarrow> jserror + 'pdf \<Rightarrow> jserror + unit \<Rightarrow>
   stage list \<times> (jserror + 'pdf)" where
  "convertEmailToPdf launch primary fallback close =
     (case launch of
        Inl launchError \<Rightarrow> ([LaunchBrowser], Inl launchError)
      | Inr browser \<Rightarrow>
          let (stages, completion) =
                (case primary of
                   Inr pdfBuffer \<Rightarrow> ([PrimaryRendering], Inr pdfBuffer)
                 | Inl error \<Rightarrow>
                     (case fallback of
                        Inr pdfBuffer \<Rightarrow> ([PrimaryRendering, FallbackRendering], Inr pdfBuffer)
                      | Inl fallbackError \<Rightarrow> ([PrimaryRendering, FallbackRendering], Inl error)))
          in (case close of
                Inl closeError \<Rightarrow> (LaunchBrowser # stages @ [CloseBrowser], Inl closeError)
              | Inr closedOk \<Rightarrow> (LaunchBrowser # stages @ [CloseBrowser], completion)))"

section \<open>The intake pipeline (emailService.js, processNewEmails)\<close>

text \<open>
  The handler of the parser's \<^verbatim>\<open>end\<close> event processes one parsed mail. What
  it reads from outside is collected in a record: the allow-list and the topic
  settings as the two stores return them, whether \<^verbatim>\<open>telegramBot\<close> and
  \<^verbatim>\<open>telegramBot.telegram\<close> are set, \<^verbatim>\<open>process.env.TELEGRAM_CHAT_ID\<close>, the decimal
  text of \<^verbatim>\<open>Date.now()\<close>, and the outcomes of the awaited calls
  \<^verbatim>\<open>convertEmailToPdf\<close>, \<^verbatim>\<open>saveFile\<close> and \<^verbatim>\<open>sendDocument\<close>, the last one for the
  call in the \<^verbatim>\<open>try\<close> block (\<open>sendResult\<close>) and for the call in the \<^verbatim>\<open>catch\<close>
  block (\<open>retryResult\<close>).
\<close>

record world =
  whitelist :: "jsstring list"
  settings :: topicSettings
  botReady :: bool
  chatId :: "jsstring option"
  timestamp :: jsstring
  pdfResult :: "jserror + nat list"
  saveResult :: "jserror + jsstring"
  sendResult :: "jserror + unit"
  retryResult :: "jserror + unit"

record sendOptions =
  caption :: jsstring
  message_thread_id :: "int option"

text \<open>The calls the handler makes to its collaborators, in order.\<close>

datatype call =
    ConvertEmailToPdf
  | SaveFile jsstring
  | SendDocument "jsstring option" jsstring jsstring sendOptions

text \<open>How the handler ends.\<close>

datatype outcome =
    Ignored
  | Sent
  | SentWithoutTopic
  | TelegramErrorLogged jserror
  | FallbackErrorLogged jserror
  | ProcessingErrorLogged jserror

text \<open>
  \<^verbatim>\<open>parseInt(topicId, 10)\<close> on a topic id. Topic ids are the integers that
  \<^verbatim>\<open>setTopicForEmail\<close> and \<^verbatim>\<open>setDefaultTopic\<close> store; the decimal text of such a
  number (below \<open>10^21\<close> in size) parses back to the number, never to \<^verbatim>\<open>NaN\<close>.
\<close>

definition parseInt :: "int \<Rightarrow> int" where
  "parseInt topicId = topicId"

text \<open>The caption and the options built in the inner \<^verbatim>\<open>try\<close> block.\<close>

definition buildCaption :: "jsstring \<Rightarrow> jsstring option \<Rightarrow> jsstring option \<Rightarrow> jsstring" where
  "buildCaption senderEmail subject forwardedText =
     (let caption = js ''Email '' @ [0x43E, 0x442] @ js '' '' @ senderEmail @ js '': '' @
                    orElse subject (js ''No Subject'')
      in if truthy forwardedText then caption @ [0x0A, 0x0A] @ the forwardedText else caption)"

definition buildOptions :: "jsstring \<Rightarrow> int option \<Rightarrow> sendOptions" where
  "buildOptions captionText topicId =
     (case topicId of
        None \<Rightarrow> \<lparr>caption = captionText, message_thread_id = None\<rparr>
      | Some t \<Rightarrow>
          let validTopicId = parseInt t in
          if validTopicId > 0
          then \<lparr>caption = captionText, message_thread_id = Some validTopicId\<rparr>
          else \<lparr>caption = captionText, message_thread_id = None\<rparr>)"

text \<open>
  The \<^verbatim>\<open>catch (telegramError)\<close> block of the delivery. It refers to the
  identifiers \<^verbatim>\<open>options\<close> and \<^verbatim>\<open>chatId\<close>; the block is modelled over the
  bindings these identifiers have in its scope, \<open>None\<close> for an identifier
  without binding, whose evaluation raises a \<^verbatim>\<open>ReferenceError\<close>. The condition
  \<^verbatim>\<open>telegramError.message && telegramError.message.includes('message thread not found') && options.message_thread_id\<close>
  is evaluated from left to right. A \<^verbatim>\<open>ReferenceError\<close> raised by the condition
  leaves the block and is logged by the outer \<^verbatim>\<open>catch\<close>; one raised inside the
  inner \<^verbatim>\<open>try\<close> is logged by the inner \<^verbatim>\<open>catch (fallbackError)\<close>.
\<close>

definition deliveryCatch ::
  "sendOptions option \<Rightarrow> jsstring option option \<Rightarrow> jserror + unit \<Rightarrow> jsstring \<Rightarrow> jsstring \<Rightarrow>
   jserror \<Rightarrow> call list \<times> outcome" where
  "deliveryCatch optionsInScope chatIdInScope retry filePath filename telegramError =
     (if truthy (message telegramError) \<and>
         js_includes (the (message telegramError)) (js ''message thread not found'')
      then
        (case optionsInScope of
           None \<Rightarrow> ([], ProcessingErrorLogged (ReferenceError (js ''options'')))
         | Some options \<Rightarrow>
             if message_thread_id options = None then ([], TelegramErrorLogged telegramError)
             else
               let fallbackOptions = options\<lparr>message_thread_id := None\<rparr> in
               (case chatIdInScope of
                  None \<Rightarrow> ([], FallbackErrorLogged (ReferenceError (js ''chatId'')))
                | Some chat \<Rightarrow>
                    (case retry of
                       Inr messageSent \<Rightarrow>
                         ([SendDocument chat filePath filename fallbackOptions], SentWithoutTopic)
                     | Inl fallbackError \<Rightarrow>
                         ([SendDocument chat filePath filename fallbackOptions],
                          FallbackErrorLogged fallbackError))))
      else ([], TelegramErrorLogged telegramError))"

text \<open>
  The inner \<^verbatim>\<open>try\<close> statement: one \<^verbatim>\<open>sendDocument\<close> call, then the \<^verbatim>\<open>catch\<close>
  block. \<^verbatim>\<open>chatId\<close>, \<^verbatim>\<open>caption\<close> and \<^verbatim>\<open>options\<close> are declared with \<^verbatim>\<open>const\<close> and
  \<^verbatim>\<open>let\<close> inside the \<^verbatim>\<open>try\<close> block, and no enclosing scope declares them: the
  \<^verbatim>\<open>catch\<close> block, a scope of its own beside the \<^verbatim>\<open>try\<close> block, is entered
  without a binding for \<^verbatim>\<open>options\<close> and for \<^verbatim>\<open>chatId\<close>.
\<close>

definition deliver ::
  "world \<Rightarrow> jsstring \<Rightarrow> jsstring option \<Rightarrow> jsstring option \<Rightarrow> int option \<Rightarrow>
   jsstring \<Rightarrow> jsstring \<Rightarrow> call list \<times> outcome" where
  "deliver w senderEmail subject forwardedText topicId filePath filename =
     (if \<not> botReady w
      then deliveryCatch None None (retryResult w) filePath filename
             (JsError (Some (js ''Telegram bot not initialized properly'')))
      else
        let caption = buildCaption senderEmail subject forwardedText;
            options = buildOptions caption topicId;
            calls = [SendDocument (chatId w) filePath filename options]
        in (case sendResult w of
              Inr messageSent \<Rightarrow> (calls, Sent)
            | Inl telegramError \<Rightarrow>
                let (retryCalls, result) =
                      deliveryCatch None None (retryResult w) filePath filename telegramError
                in (calls @ retryCalls, result)))"

definition onMailParsed ::
  "(jsstring \<Rightarrow> jsstring) \<Rightarrow> world \<Rightarrow> mail \<Rightarrow> call list \<times> outcome" where
  "onMailParsed toLowerCase w email =
     (let senderEmail = extractSenderEmail toLowerCase (m_from email) in
      if \<not> isWhitelisted toLowerCase (whitelist w) senderEmail then ([], Ignored)
      else
        let forwardedText = extractForwardedText (m_text email) in
        (case pdfResult w of
           Inl error \<Rightarrow> ([ConvertEmailToPdf], ProcessingErrorLogged error)
         | Inr pdfBuffer \<Rightarrow>
             let filename = js ''email_'' @ timestamp w @ js ''.pdf'' in
             (case saveResult w of
                Inl error \<Rightarrow> ([ConvertEmailToPdf, SaveFile filename], ProcessingErrorLogged error)
              | Inr filePath \<Rightarrow>
                  let topicId = getTopicForEmail toLowerCase (settings w) senderEmail;
                      (calls, result) =
                        deliver w senderEmail (m_subject email) forwardedText topicId
                          filePath filename
                  in (ConvertEmailToPdf # SaveFile filename # calls, result))))"

section \<open>The mailbox watcher (emailService.js, setupEmailListener)\<close>

text \<open>
  The state of the watcher: the counter \<^verbatim>\<open>reconnectAttempts\<close>, the delays of
  the timers set by \<^verbatim>\<open>setTimeout(createImapConnection, reconnectDelay)\<close> that
  have not fired yet, the number of reconnections scheduled so far, and for each
  connection created so far which of its three handlers, each registered with
  \<^verbatim>\<open>once\<close>, has not run yet. An \<^verbatim>\<open>error\<close> event on a connection whose handler
  has already run finds no listener: the event emitter throws and the process
  ends (\<open>crashed\<close>).
\<close>

record connection =
  readyArmed :: bool
  errorArmed :: bool
  endArmed :: bool

record watcher =
  reconnectAttempts :: nat
  pendingTimers :: "nat list"
  scheduled :: nat
  connections :: "connection list"
  crashed :: bool



definition createImapConnection :: "watcher \<Rightarrow> watcher" where
  "createImapConnection w =
     w\<lparr>connections := connections w @ [\<lparr>readyArmed = True, errorArmed = True, endArmed = True\<rparr>]\<rparr>"








section \<open>The retention sweep (fileUtils.js)\<close>






section \<open>Notions of the specification\<close>

text \<open>
  The domain of an address, in the sense of the specification
  (\<^verbatim>\<open>local@domain\<close>): the text after the last \<^verbatim>\<open>@\<close>; an address without
  \<^verbatim>\<open>@\<close> has none.
\<close>

definition domainOf :: "jsstring \<Rightarrow> jsstring option" where
  "domainOf s =
     (if 0x40 \<in> set s then Some (rev (takeWhile (\<lambda>c. c \<noteq> 0x40) (rev s))) else None)"

text \<open>
  The list \<open>W\<close> has a wildcard-domain entry \<^verbatim>\<open>*@domain\<close> whose domain equals
  \<open>d\<close> case-insensitively, that is, after lower-casing both.
\<close>

definition wildcardEntryFor :: "(jsstring \<Rightarrow> jsstring) \<Rightarrow> jsstring list \<Rightarrow> jsstring \<Rightarrow> bool" where
  "wildcardEntryFor toLowerCase W d =
     list_ex (\<lambda>e. prefix (js ''*@'') e \<and> 0x40 \<notin> set (drop 2 e) \<and>
                 toLowerCase (drop 2 e) = toLowerCase d) W"

text \<open>The allow-list check as the specification words it.\<close>

definition spec_isAllowed :: "(jsstring \<Rightarrow> jsstring) \<Rightarrow> jsstring list \<Rightarrow> jsstring \<Rightarrow> bool" where
  "spec_isAllowed toLowerCase W S =
     (W = [] \<or> S \<in> set W \<or>
      (case domainOf S of None \<Rightarrow> False | Some d \<Rightarrow> wildcardEntryFor toLowerCase W d))"



text \<open>
  The first occurrence of \<open>m\<close> in the text \<open>t\<close>, with \<open>p\<close> before it and \<open>r\<close>
  after it: no decomposition of the text has a shorter part before \<open>m\<close>.
\<close>

definition firstOccurrence :: "jsstring \<Rightarrow> jsstring \<Rightarrow> jsstring \<Rightarrow> jsstring \<Rightarrow> bool" where
  "firstOccurrence t p m r \<longleftrightarrow>
     t = p @ m @ r \<and> (\<forall>p' r'. t = p' @ m @ r' \<longrightarrow> length p \<le> length p')"




section \<open>Notions of the watcher proofs\<close>

text \<open>
  The number of connections whose \<^verbatim>\<open>error\<close> handler has not run yet; a watcher
  that has neither such a connection nor a pending timer; and the invariant of
  the executions: at most one such connection or pending timer exists, and the
  counter never exceeds the bound.
\<close>

definition armed :: "watcher \<Rightarrow> nat" where
  "armed w = length (filter errorArmed (connections w))"



section \<open>Example inputs\<close>

text \<open>
  A world in which every collaborator succeeds, and a mail from a given sender;
  the concrete instances of the theorems below are built from them.
\<close>

definition exampleWorld :: world where
  "exampleWorld =
     \<lparr>whitelist = [js ''*@example.com''],
      settings = \<lparr>defaultTopic = Some 7, topicMappings = [js ''alice@example.com'' \<mapsto> 42]\<rparr>,
      botReady = True,
      chatId = Some (js ''-1001''),
      timestamp = js ''1700000000000'',
      pdfResult = Inr [0x25, 0x50, 0x44, 0x46],
      saveResult = Inr (js ''/uploads/email_1700000000000.pdf''),
      sendResult = Inr (),
      retryResult = Inr ()\<rparr>"

definition exampleMail :: "jsstring \<Rightarrow> mail" where
  "exampleMail sender =
     \<lparr>m_from = FieldArray [ElemObject \<lparr>name = Some (js ''Bob''), address = Some sender\<rparr>],
      m_to = FieldArray [ElemObject \<lparr>name = None, address = Some (js ''inbox@example.org'')\<rparr>],
      m_cc = FieldAbsent,
      m_subject = Some (js ''Report''),
      m_date = None,
      m_text = Some (js ''Hi team''),
      m_html = None,
      m_attachments = []\<rparr>"



text \<open>The error with which the delivery sink rejects an unknown topic.\<close>

definition threadNotFound :: jserror where
  "threadNotFound = JsError (Some (js ''400: Bad Request: message thread not found''))"

text \<open>The bytes of a rendered document.\<close>

definition examplePdf :: "nat list" where
  "examplePdf = [0x25, 0x50, 0x44, 0x46]"






text \<open>
  Bodies of forwarded mails: the scenario of the specification; a forward of a
  forward, with two different markers; a body that starts with a marker and
  holds another one; and a body with only white space before the marker.
\<close>

definition forwardedExample :: jsstring where
  "forwardedExample =
     js ''Hi team'' @ [0x0A, 0x0A] @ js ''---------- Forwarded message ---------'' @ [0x0A] @ js ''...''"


definition leadingMarker :: jsstring where
  "leadingMarker = markers ! 1 @ js '' see below '' @ markers ! 0 @ [0x0A] @ js ''...''"

definition blankBeforeMarker :: jsstring where
  "blankBeforeMarker = js '' '' @ [0x0A] @ markers ! 0 @ [0x0A] @ js ''From: a@b.c''"


section \<open>Splitting at a single code unit\<close>

lemma split_first_single_None:
  "split_first [c] s = None \<longleftrightarrow> c \<notin> set s"
  by (induction s) (auto split: option.splits)

lemma split_first_single_Some:
  "split_first [c] s = Some (b, a) \<longleftrightarrow> s = b @ c # a \<and> c \<notin> set b"
proof (induction s arbitrary: b)
  case Nil
  then show ?case by simp
next
  case (Cons x xs)
  show ?case
  proof (cases b)
    case Nil
    then show ?thesis by (auto split: option.splits)
  next
    case (Cons y ys)
    show ?thesis
    proof (cases "x = c")
      case True
      with Cons show ?thesis by auto
    next
      case False
      have "split_first [c] xs = Some (ys, a) \<longleftrightarrow> xs = ys @ c # a \<and> c \<notin> set ys"
        by (rule Cons.IH)
      with False Cons show ?thesis by (auto split: option.splits)
    qed
  qed
qed

lemma js_split_single_absent:
  "c \<notin> set s \<Longrightarrow> js_split s [c] = [s]"
proof -
  assume "c \<notin> set s"
  then have "split_first [c] s = None" by (simp add: split_first_single_None)
  then show ?thesis by (simp add: js_split.simps [of s])
qed

lemma js_split_single_append:
  "c \<notin> set b \<Longrightarrow> js_split (b @ c # a) [c] = b # js_split a [c]"
proof -
  assume "c \<notin> set b"
  then have "split_first [c] (b @ c # a) = Some (b, a)"
    by (simp add: split_first_single_Some)
  then show ?thesis by (simp add: js_split.simps [of "b @ c # a"])
qed

lemma js_split_single_length:
  "length (js_split s [c]) = Suc (count_list s c)"
proof (induction s "[c]" rule: js_split.induct)
  case (1 s)
  show ?case
  proof (cases "split_first [c] s")
    case None
    then have "c \<notin> set s" by (simp add: split_first_single_None)
    then show ?thesis by (simp add: js_split_single_absent)
  next
    case (Some p)
    obtain b a where p: "p = (b, a)" by (cases p)
    with Some have s: "s = b @ c # a" "c \<notin> set b"
      by (simp_all add: split_first_single_Some)
    have "length (js_split a [c]) = Suc (count_list a c)"
      using "1.hyps" [OF _ Some p [symmetric]] by simp
    with s show ?thesis by (simp add: js_split_single_append)
  qed
qed

lemma js_split_single_two:
  "length (js_split s [c]) = 2 \<longleftrightarrow> (\<exists>l d. s = l @ c # d \<and> c \<notin> set l \<and> c \<notin> set d)"
proof
  assume len: "length (js_split s [c]) = 2"
  have "c \<in> set s"
  proof (rule ccontr)
    assume "c \<notin> set s"
    then have "js_split s [c] = [s]" by (rule js_split_single_absent)
    with len show False by simp
  qed
  then obtain l d where s: "s = l @ c # d" "c \<notin> set l"
    by (auto dest: split_list_first)
  with len have "length (js_split d [c]) = 1"
    by (simp add: js_split_single_append)
  then have "count_list d c = 0" by (simp add: js_split_single_length)
  then have "c \<notin> set d" by (simp add: count_list_0_iff)
  with s show "\<exists>l d. s = l @ c # d \<and> c \<notin> set l \<and> c \<notin> set d" by blast
next
  assume "\<exists>l d. s = l @ c # d \<and> c \<notin> set l \<and> c \<notin> set d"
  then show "length (js_split s [c]) = 2"
    by (auto simp: js_split_single_append js_split_single_absent)
qed

lemma js_split_single_parts:
  "c \<notin> set l \<Longrightarrow> c \<notin> set d \<Longrightarrow> js_split (l @ c # d) [c] = [l, d]"
  by (simp add: js_split_single_append js_split_single_absent)

section \<open>The allow-list check\<close>

lemma js_star_at: "js ''*@'' = [42, 64]" and js_at: "js ''@'' = [64]"
  by (simp_all add: js_def)

lemma isDomainWildcard_iff:
  "isDomainWildcard p \<longleftrightarrow> (\<exists>d. p = js ''*@'' @ d \<and> 64 \<notin> set d)"
proof
  assume "isDomainWildcard p"
  then have pre: "prefix [42, 64] p" and len: "length (js_split p [64]) = 2"
    by (simp_all add: isDomainWildcard_def js_startsWith_def js_star_at js_at)
  from pre obtain d where p: "p = [42, 64] @ d" by (auto simp: prefix_def)
  then have "js_split p [64] = [42] # js_split d [64]"
    using js_split_single_append [of 64 "[42]" d] by simp
  with len have "count_list d 64 = 0" by (simp add: js_split_single_length)
  then have "64 \<notin> set d" by (simp add: count_list_0_iff)
  with p show "\<exists>d. p = js ''*@'' @ d \<and> 64 \<notin> set d" by (auto simp: js_star_at)
next
  assume "\<exists>d. p = js ''*@'' @ d \<and> 64 \<notin> set d"
  then obtain d where p: "p = [42] @ 64 # d" "64 \<notin> set d" by (auto simp: js_star_at)
  then have "js_split p [64] = [[42], d]"
    using js_split_single_parts [of 64 "[42]" d] by simp
  with p show "isDomainWildcard p"
    by (simp add: isDomainWildcard_def js_startsWith_def js_star_at js_at)
qed

lemma wildcard_domain:
  "64 \<notin> set d \<Longrightarrow> js_split (js ''*@'' @ d) (js ''@'') ! 1 = d"
  using js_split_single_parts [of 64 "[42]" d] by (simp add: js_star_at js_at)

lemma matchesDomainWildcard_iff:
  "matchesDomainWildcard lc email pattern \<longleftrightarrow>
     (\<exists>l d p. email = l @ 64 # d \<and> 64 \<notin> set l \<and> 64 \<notin> set d \<and>
        pattern = js ''*@'' @ p \<and> 64 \<notin> set p \<and> lc d = lc p)"
proof (cases "isDomainWildcard pattern \<and> length (js_split email [64]) = 2")
  case True
  then obtain p where p: "pattern = js ''*@'' @ p" "64 \<notin> set p"
    by (auto simp: isDomainWildcard_iff)
  from True obtain l d where e: "email = l @ 64 # d" "64 \<notin> set l" "64 \<notin> set d"
    by (auto simp: js_split_single_two)
  have parts: "js_split email [64] = [l, d]"
    using e by (simp add: js_split_single_parts)
  have ne: "email \<noteq> []" "pattern \<noteq> []" using e p by (simp_all add: js_star_at)
  have "js_split pattern (js ''@'') ! 1 = p"
    using wildcard_domain [OF p(2)] p(1) by simp
  then have "matchesDomainWildcard lc email pattern \<longleftrightarrow> lc d = lc p"
    using True ne parts by (simp add: matchesDomainWildcard_def js_at Let_def)
  moreover have "(\<exists>l' d' p'. email = l' @ 64 # d' \<and> 64 \<notin> set l' \<and> 64 \<notin> set d' \<and>
        pattern = js ''*@'' @ p' \<and> 64 \<notin> set p' \<and> lc d' = lc p') \<longleftrightarrow> lc d = lc p"
  proof
    assume "\<exists>l' d' p'. email = l' @ 64 # d' \<and> 64 \<notin> set l' \<and> 64 \<notin> set d' \<and>
        pattern = js ''*@'' @ p' \<and> 64 \<notin> set p' \<and> lc d' = lc p'"
    then obtain l' d' p' where h: "email = l' @ 64 # d'" "64 \<notin> set l'" "64 \<notin> set d'"
        "pattern = js ''*@'' @ p'" "lc d' = lc p'" by blast
    from h(1-3) have "js_split email [64] = [l', d']" by (simp add: js_split_single_parts)
    with parts have "d' = d" by simp
    moreover from h(4) p(1) have "p' = p" by simp
    ultimately show "lc d = lc p" using h(5) by simp
  next
    assume "lc d = lc p"
    with e p show "\<exists>l' d' p'. email = l' @ 64 # d' \<and> 64 \<notin> set l' \<and> 64 \<notin> set d' \<and>
        pattern = js ''*@'' @ p' \<and> 64 \<notin> set p' \<and> lc d' = lc p'" by blast
  qed
  ultimately show ?thesis by simp
next
  case False
  then have "\<not> matchesDomainWildcard lc email pattern"
    by (auto simp: matchesDomainWildcard_def js_at Let_def)
  moreover have "\<not> (\<exists>l d p. email = l @ 64 # d \<and> 64 \<notin> set l \<and> 64 \<notin> set d \<and>
        pattern = js ''*@'' @ p \<and> 64 \<notin> set p \<and> lc d = lc p)"
    using False by (auto simp: isDomainWildcard_iff js_split_single_two)
  ultimately show ?thesis by simp
qed

lemma anyWildcardMatches_iff:
  "anyWildcardMatches lc email ps \<longleftrightarrow> (\<exists>p \<in> set ps. matchesDomainWildcard lc email p)"
  by (induction ps) simp_all

lemma isWhitelisted_iff:
  "isWhitelisted lc W S \<longleftrightarrow>
     W = [] \<or> S \<in> set W \<or>
     (\<exists>l d p. S = l @ 64 # d \<and> 64 \<notin> set l \<and> 64 \<notin> set d \<and>
        js ''*@'' @ p \<in> set W \<and> 64 \<notin> set p \<and> lc d = lc p)"
proof -
  have "(\<exists>e \<in> set (filter isDomainWildcard W). matchesDomainWildcard lc S e) \<longleftrightarrow>
     (\<exists>e \<in> set W. matchesDomainWildcard lc S e)"
    by (auto simp: matchesDomainWildcard_def)
  also have "\<dots> \<longleftrightarrow> (\<exists>l d p. S = l @ 64 # d \<and> 64 \<notin> set l \<and> 64 \<notin> set d \<and>
        js ''*@'' @ p \<in> set W \<and> 64 \<notin> set p \<and> lc d = lc p)"
    unfolding matchesDomainWildcard_iff by blast
  finally show ?thesis
    by (simp add: isWhitelisted_def anyWildcardMatches_iff Let_def)
qed

lemmas eval_js = js_def js_split.simps js_startsWith_def

lemma count_one_split:
  "count_list (s :: jsstring) c = 1 \<longleftrightarrow> (\<exists>l d. s = l @ c # d \<and> c \<notin> set l \<and> c \<notin> set d)"
  using js_split_single_two [of s c] by (simp add: js_split_single_length)

lemma domainOf_split:
  "0x40 \<notin> set d \<Longrightarrow> domainOf (l @ 0x40 # d) = Some d"
  by (simp add: domainOf_def takeWhile_append)

lemma wildcardEntryFor_iff:
  "wildcardEntryFor lc W d \<longleftrightarrow> (\<exists>p. js ''*@'' @ p \<in> set W \<and> 0x40 \<notin> set p \<and> lc p = lc d)"
proof
  assume "wildcardEntryFor lc W d"
  then obtain e where e: "e \<in> set W" "prefix (js ''*@'') e" "0x40 \<notin> set (drop 2 e)"
      "lc (drop 2 e) = lc d"
    by (auto simp: wildcardEntryFor_def list_ex_iff)
  from e(2) obtain p where "e = js ''*@'' @ p" by (auto simp: prefix_def)
  moreover from this have "drop 2 e = p" by (simp add: js_star_at)
  ultimately show "\<exists>p. js ''*@'' @ p \<in> set W \<and> 0x40 \<notin> set p \<and> lc p = lc d"
    using e by auto
next
  assume "\<exists>p. js ''*@'' @ p \<in> set W \<and> 0x40 \<notin> set p \<and> lc p = lc d"
  then obtain p where p: "js ''*@'' @ p \<in> set W" "0x40 \<notin> set p" "lc p = lc d" by blast
  have "drop 2 (js ''*@'' @ p) = p" by (simp add: js_star_at)
  with p show "wildcardEntryFor lc W d"
    unfolding wildcardEntryFor_def list_ex_iff
    by (intro bexI [of _ "js ''*@'' @ p"]) simp_all
qed

lemma wildcard_clause:
  "(\<exists>l d p. S = l @ 64 # d \<and> 64 \<notin> set l \<and> 64 \<notin> set d \<and>
        js ''*@'' @ p \<in> set W \<and> 64 \<notin> set p \<and> lc d = lc p) \<longleftrightarrow>
   (count_list S 0x40 = 1 \<and> (\<exists>d. domainOf S = Some d \<and> wildcardEntryFor lc W d))"
proof
  assume "\<exists>l d p. S = l @ 64 # d \<and> 64 \<notin> set l \<and> 64 \<notin> set d \<and>
        js ''*@'' @ p \<in> set W \<and> 64 \<notin> set p \<and> lc d = lc p"
  then obtain l d p where h: "S = l @ 64 # d" "64 \<notin> set l" "64 \<notin> set d"
      "js ''*@'' @ p \<in> set W" "64 \<notin> set p" "lc d = lc p" by blast
  from h(1-3) have "count_list S 0x40 = 1" unfolding count_one_split by blast
  moreover from h(1,3) have "domainOf S = Some d" by (simp add: domainOf_split)
  moreover from h(4-6) have "wildcardEntryFor lc W d" by (auto simp: wildcardEntryFor_iff)
  ultimately show "count_list S 0x40 = 1 \<and> (\<exists>d. domainOf S = Some d \<and> wildcardEntryFor lc W d)"
    by simp
next
  assume r: "count_list S 0x40 = 1 \<and> (\<exists>d. domainOf S = Some d \<and> wildcardEntryFor lc W d)"
  then have "\<exists>l d. S = l @ 64 # d \<and> 64 \<notin> set l \<and> 64 \<notin> set d"
    unfolding count_one_split by blast
  then obtain l d where s: "S = l @ 64 # d" "64 \<notin> set l" "64 \<notin> set d"
    by blast
  then have "domainOf S = Some d" by (simp add: domainOf_split)
  with r have "wildcardEntryFor lc W d" by auto
  then obtain p where "js ''*@'' @ p \<in> set W" "64 \<notin> set p" "lc p = lc d"
    by (auto simp: wildcardEntryFor_iff)
  with s show "\<exists>l d p. S = l @ 64 # d \<and> 64 \<notin> set l \<and> 64 \<notin> set d \<and>
        js ''*@'' @ p \<in> set W \<and> 64 \<notin> set p \<and> lc d = lc p"
    by metis
qed

text \<open>
  Claim C1, as amended. For every allow-list \<open>W\<close> and every sender \<open>S\<close>,
  \<^verbatim>\<open>isWhitelisted\<close> answers true exactly when \<open>W\<close> is empty, or \<open>S\<close> is an entry of
  \<open>W\<close> as stored, or \<open>S\<close> contains exactly one \<^verbatim>\<open>@\<close> and \<open>W\<close> has a wildcard-domain
  entry whose domain equals the domain of \<open>S\<close> after lower-casing both. A mail
  whose sender is not accepted is ignored: the handler makes no call to the
  renderer, the file store or the delivery sink.
\<close>

theorem isWhitelisted_characterisation:
  "(isWhitelisted lc W S \<longleftrightarrow>
      W = [] \<or> S \<in> set W \<or>
      (count_list S 0x40 = 1 \<and> (\<exists>d. domainOf S = Some d \<and> wildcardEntryFor lc W d))) \<and>
   (\<not> isWhitelisted lc (whitelist w) (extractSenderEmail lc (m_from email)) \<longrightarrow>
      onMailParsed lc w email = ([], Ignored))"
proof
  show "isWhitelisted lc W S \<longleftrightarrow>
      W = [] \<or> S \<in> set W \<or>
      (count_list S 0x40 = 1 \<and> (\<exists>d. domainOf S = Some d \<and> wildcardEntryFor lc W d))"
    unfolding isWhitelisted_iff wildcard_clause ..
next
  show "\<not> isWhitelisted lc (whitelist w) (extractSenderEmail lc (m_from email)) \<longrightarrow>
      onMailParsed lc w email = ([], Ignored)"
    by (simp add: onMailParsed_def Let_def)
qed

theorem isWhitelisted_characterisation_witness:
  "isWhitelisted ascii_toLowerCase [js ''*@example.com''] (js ''bob@EXAMPLE.com'') \<and>
   \<not> isWhitelisted ascii_toLowerCase [js ''*@example.com''] (js ''bob@other.com'') \<and>
   onMailParsed ascii_toLowerCase exampleWorld (exampleMail (js ''Bob@Other.com'')) = ([], Ignored)"
proof -
  have a: "isWhitelisted ascii_toLowerCase [js ''*@example.com''] (js ''bob@EXAMPLE.com'')"
    using isWhitelisted_characterisation
      [of ascii_toLowerCase "[js ''*@example.com'']" "js ''bob@EXAMPLE.com''"]
    by (simp add: js_def domainOf_def wildcardEntryFor_def ascii_toLowerCase_def)
  have b: "\<not> isWhitelisted ascii_toLowerCase [js ''*@example.com''] (js ''bob@other.com'')"
    using isWhitelisted_characterisation
      [of ascii_toLowerCase "[js ''*@example.com'']" "js ''bob@other.com''"]
    by (simp add: js_def domainOf_def wildcardEntryFor_def ascii_toLowerCase_def)
  have s: "extractSenderEmail ascii_toLowerCase (m_from (exampleMail (js ''Bob@Other.com'')))
      = js ''bob@other.com''"
    by (simp add: exampleMail_def truthy_def js_def ascii_toLowerCase_def)
  have c: "onMailParsed ascii_toLowerCase exampleWorld (exampleMail (js ''Bob@Other.com'')) = ([], Ignored)"
    using isWhitelisted_characterisation
      [of ascii_toLowerCase _ _ exampleWorld "exampleMail (js ''Bob@Other.com'')"] b s
    by (simp add: exampleWorld_def)
  from a b c show ?thesis by simp
qed

theorem isWhitelisted_two_at_counterexample:
  "spec_isAllowed ascii_toLowerCase [js ''*@example.com''] (js ''a@b@example.com'') \<and>
   \<not> isWhitelisted ascii_toLowerCase [js ''*@example.com''] (js ''a@b@example.com'')"
  by (simp add: spec_isAllowed_def domainOf_def wildcardEntryFor_def isWhitelisted_def
      isDomainWildcard_def matchesDomainWildcard_def ascii_toLowerCase_def eval_js)

section \<open>Routing\<close>





section \<open>Delivery\<close>

lemmas eval_whitelist = isWhitelisted_def isDomainWildcard_def matchesDomainWildcard_def
  ascii_toLowerCase_def
lemmas eval_extract = extractForwardedText_def truthy_def markers_def js_trim_def is_space_def
  normalizeComment_def collapseSpaces_def trimLineStarts_def joinWrappedLines_def
  collapseBlankLines_def is_newline_def not_punct_def is_letter_def
text \<open>
  Claim C3 asks for one retry without the sub-channel when the delivery fails
  with a sub-channel-not-found error. The \<^verbatim>\<open>catch\<close> block is written to make it:
  entered with bindings for \<^verbatim>\<open>options\<close> and \<^verbatim>\<open>chatId\<close>, it would send the
  document once more, to the same chat with the same file and caption and
  without the topic. The handler enters it without these bindings. When the bot
  is set and \<^verbatim>\<open>sendDocument\<close> fails with an error whose message includes
  \<^verbatim>\<open>message thread not found\<close>, the handler has made exactly one
  \<^verbatim>\<open>sendDocument\<close> call, the failed one, and ends in the outer \<^verbatim>\<open>catch\<close> with
  the \<^verbatim>\<open>ReferenceError\<close> for \<^verbatim>\<open>options\<close>.
\<close>

theorem delivery_retry_not_made:
  assumes "message telegramError = Some m"
    and "js_includes m (js ''message thread not found'')"
  shows
    "(botReady w \<and> sendResult w = Inl telegramError \<longrightarrow>
        deliver w senderEmail subject forwardedText topicId filePath filename =
          ([SendDocument (chatId w) filePath filename
              (buildOptions (buildCaption senderEmail subject forwardedText) topicId)],
           ProcessingErrorLogged (ReferenceError (js ''options'')))) \<and>
     (message_thread_id options \<noteq> None \<longrightarrow>
        deliveryCatch (Some options) (Some chat) (Inr ()) filePath filename telegramError =
          ([SendDocument chat filePath filename (options\<lparr>message_thread_id := None\<rparr>)],
           SentWithoutTopic))"
proof -
  from assms(2) have "m \<noteq> []" by (auto simp: js_def)
  with assms show ?thesis
    by (simp add: deliver_def deliveryCatch_def truthy_def Let_def)
qed

theorem delivery_retry_not_made_witness:
  "onMailParsed ascii_toLowerCase
     (exampleWorld\<lparr>settings := \<lparr>defaultTopic = Some 99, topicMappings = Map.empty\<rparr>,
                   sendResult := Inl threadNotFound\<rparr>)
     (exampleMail (js ''bob@example.com'')) =
   ([ConvertEmailToPdf,
     SaveFile (js ''email_1700000000000.pdf''),
     SendDocument (Some (js ''-1001'')) (js ''/uploads/email_1700000000000.pdf'')
       (js ''email_1700000000000.pdf'')
       \<lparr>caption = js ''Email '' @ [0x43E, 0x442] @ js '' bob@example.com: Report'',
        message_thread_id = Some 99\<rparr>],
    ProcessingErrorLogged (ReferenceError (js ''options'')))"
proof -
  let ?w = "exampleWorld\<lparr>settings := \<lparr>defaultTopic = Some 99, topicMappings = Map.empty\<rparr>,
                   sendResult := Inl threadNotFound\<rparr>"
  have inc: "js_includes (js ''400: Bad Request: message thread not found'')
      (js ''message thread not found'')"
    by (simp add: js_def)
  have d: "deliver ?w (js ''bob@example.com'') (Some (js ''Report'')) None (Some 99)
      (js ''/uploads/email_1700000000000.pdf'') (js ''email_1700000000000.pdf'') =
     ([SendDocument (chatId ?w) (js ''/uploads/email_1700000000000.pdf'')
         (js ''email_1700000000000.pdf'')
         (buildOptions (buildCaption (js ''bob@example.com'') (Some (js ''Report'')) None) (Some 99))],
      ProcessingErrorLogged (ReferenceError (js ''options'')))"
    using delivery_retry_not_made [where telegramError = threadNotFound and w = ?w, OF _ inc]
    by (simp add: exampleWorld_def threadNotFound_def)
  have s: "extractSenderEmail ascii_toLowerCase (m_from (exampleMail (js ''bob@example.com'')))
      = js ''bob@example.com''"
    by (simp add: exampleMail_def truthy_def js_def ascii_toLowerCase_def)
  have wl: "isWhitelisted ascii_toLowerCase (whitelist ?w) (js ''bob@example.com'')"
    by (simp add: exampleWorld_def eval_whitelist eval_js)
  have ft: "extractForwardedText (m_text (exampleMail (js ''bob@example.com''))) = None"
    by (simp add: exampleMail_def eval_extract js_def)
  have tp: "getTopicForEmail ascii_toLowerCase (settings ?w) (js ''bob@example.com'') = Some 99"
    by (simp add: getTopicForEmail_def js_index_def ascii_toLowerCase_def eval_js)
  have subj: "m_subject (exampleMail (js ''bob@example.com'')) = Some (js ''Report'')"
    by (simp add: exampleMail_def)
  show ?thesis
    unfolding onMailParsed_def Let_def s ft tp subj
    using wl d
    by (simp add: exampleWorld_def buildOptions_def buildCaption_def parseInt_def orElse_def
        truthy_def js_def)
qed





section \<open>Rendering\<close>

text \<open>
  Claim C4, as amended. When the browser has been launched and is closed
  without error: the rich rendering is attempted first; the text rendering is
  attempted exactly when the rich rendering raises; the result is the document
  of the first rendering that succeeds; and when both fail, the error thrown is
  the error of the rich rendering.
\<close>

theorem convertEmailToPdf_fallback:
  "launch = Inr browser \<Longrightarrow> close = Inr closedOk \<Longrightarrow>
   fst (convertEmailToPdf launch primary fallback close) =
     LaunchBrowser # PrimaryRendering #
       (case primary of Inl error \<Rightarrow> [FallbackRendering] | Inr pdfBuffer \<Rightarrow> []) @ [CloseBrowser] \<and>
   snd (convertEmailToPdf launch primary fallback close) =
     (case primary of
        Inr pdfBuffer \<Rightarrow> Inr pdfBuffer
      | Inl error \<Rightarrow>
          (case fallback of Inr pdfBuffer \<Rightarrow> Inr pdfBuffer | Inl fallbackError \<Rightarrow> Inl error))"
  by (simp add: convertEmailToPdf_def split: sum.splits)

theorem convertEmailToPdf_fallback_witness:
  "convertEmailToPdf (Inr ()) (Inl (JsError (Some (js ''Navigation timeout''))))
       (Inl (JsError (Some (js ''Target closed'')))) (Inr ()) =
     ([LaunchBrowser, PrimaryRendering, FallbackRendering, CloseBrowser],
      (Inl (JsError (Some (js ''Navigation timeout''))) :: jserror + nat list)) \<and>
   convertEmailToPdf (Inr ()) (Inl (JsError (Some (js ''Navigation timeout''))))
       (Inr examplePdf) (Inr ()) =
     ([LaunchBrowser, PrimaryRendering, FallbackRendering, CloseBrowser], Inr examplePdf) \<and>
   convertEmailToPdf (Inr ()) (Inr examplePdf) (Inr examplePdf) (Inr ()) =
     ([LaunchBrowser, PrimaryRendering, CloseBrowser], Inr examplePdf)"
proof -
  have e: "(Inr () :: jserror + unit) = Inr ()" by simp
  note t = convertEmailToPdf_fallback [OF e e]
  have "convertEmailToPdf (Inr ()) (Inl (JsError (Some (js ''Navigation timeout''))))
       (Inl (JsError (Some (js ''Target closed'')))) (Inr ()) =
     ([LaunchBrowser, PrimaryRendering, FallbackRendering, CloseBrowser],
      (Inl (JsError (Some (js ''Navigation timeout''))) :: jserror + nat list))"
    using t [of "Inl (JsError (Some (js ''Navigation timeout'')))"
        "Inl (JsError (Some (js ''Target closed''))) :: jserror + nat list"]
    by (simp add: prod_eq_iff)
  moreover have "convertEmailToPdf (Inr ()) (Inl (JsError (Some (js ''Navigation timeout''))))
       (Inr examplePdf) (Inr ()) =
     ([LaunchBrowser, PrimaryRendering, FallbackRendering, CloseBrowser], Inr examplePdf)"
    using t [of "Inl (JsError (Some (js ''Navigation timeout'')))" "Inr examplePdf"]
    by (simp add: prod_eq_iff)
  moreover have "convertEmailToPdf (Inr ()) (Inr examplePdf) (Inr examplePdf) (Inr ()) =
     ([LaunchBrowser, PrimaryRendering, CloseBrowser], Inr examplePdf)"
    using t [of "Inr examplePdf" "Inr examplePdf"]
    by (simp add: prod_eq_iff)
  ultimately show ?thesis by simp
qed

theorem convertEmailToPdf_browser_counterexample:
  "convertEmailToPdf (Inl (JsError (Some (js ''Failed to launch the browser process''))))
       (Inr examplePdf) (Inr examplePdf) (Inr ()) =
     ([LaunchBrowser], Inl (JsError (Some (js ''Failed to launch the browser process'')))) \<and>
   convertEmailToPdf (Inr ()) (Inr examplePdf) (Inr examplePdf)
       (Inl (JsError (Some (js ''Target closed'')))) =
     ([LaunchBrowser, PrimaryRendering, CloseBrowser], Inl (JsError (Some (js ''Target closed'')))) \<and>
   convertEmailToPdf (Inr ()) (Inl (JsError (Some (js ''Navigation timeout''))))
       (Inl (JsError (Some (js ''Target closed''))) :: jserror + nat list)
       (Inl (JsError (Some (js ''Connection closed'')))) =
     ([LaunchBrowser, PrimaryRendering, FallbackRendering, CloseBrowser],
      Inl (JsError (Some (js ''Connection closed''))))"
  by (simp add: convertEmailToPdf_def)

section \<open>The retention sweep\<close>






section \<open>The watcher\<close>






lemma armed_create: "armed (createImapConnection w) = Suc (armed w)"
  by (simp add: armed_def createImapConnection_def)

















section \<open>Occurrences of a separator\<close>

lemma js_includes_iff: "js_includes t m \<longleftrightarrow> (\<exists>p r. t = p @ m @ r)"
proof (induction t)
  case Nil
  show ?case by auto
next
  case (Cons c cs)
  show ?case
  proof
    assume "js_includes (c # cs) m"
    then consider "prefix m (c # cs)" | "js_includes cs m" by auto
    then show "\<exists>p r. c # cs = p @ m @ r"
    proof cases
      case 1
      then obtain r where "c # cs = m @ r" by (auto simp: prefix_def)
      then have "c # cs = [] @ m @ r" by simp
      then show ?thesis by blast
    next
      case 2
      with Cons.IH obtain p r where "cs = p @ m @ r" by blast
      then have "c # cs = (c # p) @ m @ r" by simp
      then show ?thesis by blast
    qed
  next
    assume "\<exists>p r. c # cs = p @ m @ r"
    then obtain p r where e: "c # cs = p @ m @ r" by blast
    show "js_includes (c # cs) m"
    proof (cases p)
      case Nil
      with e have "prefix m (c # cs)" by (simp add: prefix_def)
      then show ?thesis by simp
    next
      case (Cons x p')
      with e have "cs = p' @ m @ r" by simp
      with Cons.IH have "js_includes cs m" by blast
      then show ?thesis by simp
    qed
  qed
qed

lemma split_first_firstOccurrence:
  "m \<noteq> [] \<Longrightarrow> firstOccurrence t p m r \<Longrightarrow> split_first m t = Some (p, r)"
proof (induction p arbitrary: t)
  case Nil
  then have t: "t = m @ r" by (simp add: firstOccurrence_def)
  with Nil.prems(1) have "t \<noteq> []" by simp
  then obtain c cs where c: "t = c # cs" by (cases t) auto
  from t have "prefix m t" by (simp add: prefix_def)
  moreover from t have "drop (length m) t = r" by simp
  ultimately have "split_first m (c # cs) = Some ([], r)" unfolding c by simp
  with c show ?case by simp
next
  case (Cons x p)
  from Cons.prems(2) have t: "t = x # (p @ m @ r)"
    by (simp add: firstOccurrence_def)
  from Cons.prems(2) have "\<forall>p' r'. t = p' @ m @ r' \<longrightarrow> length (x # p) \<le> length p'"
    unfolding firstOccurrence_def by (rule conjunct2)
  then have least: "\<And>p' r'. t = p' @ m @ r' \<Longrightarrow> Suc (length p) \<le> length p'"
    by simp
  have np: "\<not> prefix m t"
  proof
    assume "prefix m t"
    then obtain r' where "t = [] @ m @ r'" by (auto simp: prefix_def)
    from least [OF this] show False by simp
  qed
  have "firstOccurrence (p @ m @ r) p m r"
    unfolding firstOccurrence_def
  proof (intro conjI allI impI)
    show "p @ m @ r = p @ m @ r" by simp
  next
    fix p' r'
    assume "p @ m @ r = p' @ m @ r'"
    with t have "t = (x # p') @ m @ r'" by simp
    from least [OF this] show "length p \<le> length p'" by simp
  qed
  from Cons.IH [OF Cons.prems(1) this] np t show ?case by simp
qed

lemma js_split_nonempty: "m \<noteq> [] \<Longrightarrow> js_split t m \<noteq> []"
  by (subst js_split.simps) (auto split: option.splits)

lemma js_split_firstOccurrence:
  assumes "m \<noteq> []" "firstOccurrence t p m r"
  shows "js_split t m ! 0 = p \<and> length (js_split t m) > 1"
proof -
  from assms have "split_first m t = Some (p, r)" by (rule split_first_firstOccurrence)
  with assms(1) have "js_split t m = p # js_split r m"
    by (subst js_split.simps) simp
  with js_split_nonempty [OF assms(1), of r] show ?thesis by (cases "js_split r m") simp_all
qed

section \<open>The marker loop\<close>


lemma scanMarkers_skip:
  "\<forall>m \<in> set earlier. \<not> js_includes t m \<Longrightarrow>
   scanMarkers (earlier @ ms) t = scanMarkers ms t"
  by (induction earlier) simp_all

lemma scanMarkers_found:
  assumes "m \<noteq> []" "firstOccurrence t p m r"
  shows "scanMarkers (m # later) t =
     (if js_trim p = [] then None else Some (normalizeComment (js_trim p)))"
proof -
  from assms(2) have "js_includes t m"
    unfolding js_includes_iff firstOccurrence_def by blast
  with js_split_firstOccurrence [OF assms] show ?thesis by (simp add: Let_def)
qed

lemma markers_nonempty: "m \<in> set markers \<Longrightarrow> m \<noteq> []"
  by (auto simp: markers_def js_def)

section \<open>Replacement keeps a text non-empty\<close>

lemma replaceAll_nonempty:
  "(\<And>m. f m \<noteq> []) \<Longrightarrow> s \<noteq> [] \<Longrightarrow> replaceAll r f s \<noteq> []"
  by (cases s) (auto split: option.splits)

lemma normalizeComment_nonempty: "s \<noteq> [] \<Longrightarrow> normalizeComment s \<noteq> []"
  unfolding normalizeComment_def collapseSpaces_def trimLineStarts_def joinWrappedLines_def
    collapseBlankLines_def
  by (intro replaceAll_nonempty) simp_all

lemma scanMarkers_nonempty: "scanMarkers ms t = Some c \<Longrightarrow> c \<noteq> []"
  by (induction ms) (auto simp: Let_def normalizeComment_nonempty split: if_splits)


section \<open>Runs of white space\<close>













section \<open>The extracted comment\<close>

lemma firstOccurrence_split_first:
  "m \<noteq> [] \<Longrightarrow> split_first m t = Some (p, r) \<Longrightarrow> firstOccurrence t p m r"
proof (induction t arbitrary: p)
  case Nil
  then show ?case by simp
next
  case (Cons c cs)
  show ?case
  proof (cases "prefix m (c # cs)")
    case True
    with Cons.prems(2) have p: "p = []" and r: "r = drop (length m) (c # cs)" by simp_all
    from True obtain r' where "c # cs = m @ r'" by (auto simp: prefix_def)
    with r have "c # cs = m @ r" by simp
    with p show ?thesis by (simp add: firstOccurrence_def)
  next
    case False
    with Cons.prems(2) obtain p' where p': "split_first m cs = Some (p', r)" "p = c # p'"
      by (auto split: option.splits)
    from Cons.IH [OF Cons.prems(1) p'(1)] have ih: "firstOccurrence cs p' m r" .
    show ?thesis
      unfolding firstOccurrence_def
    proof (intro conjI allI impI)
      from ih p'(2) show "c # cs = p @ m @ r" by (simp add: firstOccurrence_def)
    next
      fix q r'
      assume e: "c # cs = q @ m @ r'"
      show "length p \<le> length q"
      proof (cases q)
        case Nil
        with e have "prefix m (c # cs)" by (simp add: prefix_def)
        with False show ?thesis by simp
      next
        case (Cons x q')
        with e have "cs = q' @ m @ r'" by simp
        with ih have "length p' \<le> length q'" unfolding firstOccurrence_def by blast
        with Cons p'(2) show ?thesis by simp
      qed
    qed
  qed
qed

lemma js_trim_blank: "js_trim p = [] \<longleftrightarrow> list_all is_space p"
proof -
  let ?d = "dropWhile is_space p"
  have d: "(\<forall>c \<in> set ?d. is_space c) \<longleftrightarrow> ?d = []"
  proof
    assume all: "\<forall>c \<in> set ?d. is_space c"
    show "?d = []"
    proof (rule ccontr)
      assume ne: "?d \<noteq> []"
      then have "\<not> is_space (hd ?d)" by (rule hd_dropWhile)
      moreover from ne have "hd ?d \<in> set ?d" by (rule hd_in_set)
      ultimately show False using all by blast
    qed
  next
    assume e: "?d = []"
    show "\<forall>c \<in> set ?d. is_space c" unfolding e by simp
  qed
  have "js_trim p = [] \<longleftrightarrow> dropWhile is_space (rev ?d) = []"
    by (simp add: js_trim_def)
  also have "\<dots> \<longleftrightarrow> (\<forall>c \<in> set ?d. is_space c)"
    by (simp add: dropWhile_eq_Nil_conv)
  also have "\<dots> \<longleftrightarrow> ?d = []" by (rule d)
  also have "\<dots> \<longleftrightarrow> list_all is_space p"
    by (simp add: dropWhile_eq_Nil_conv list_all_iff)
  finally show ?thesis .
qed







text \<open>
  Claim C10, as amended. \<^verbatim>\<open>extractForwardedText\<close> returns \<^verbatim>\<open>null\<close> when the mail
  has no plain-text body or an empty one, and when the text before the first
  occurrence of the first marker of the list that the body contains is empty or
  white space only. Every comment it returns is a non-empty string.
\<close>

theorem extractForwardedText_null:
  "extractForwardedText None = None \<and>
   extractForwardedText (Some []) = None \<and>
   (markers = earlier @ m # later \<and> (\<forall>m' \<in> set earlier. \<not> js_includes t m') \<and>
    firstOccurrence t p m r \<and> list_all is_space p \<longrightarrow>
      extractForwardedText (Some t) = None) \<and>
   (extractForwardedText x = Some c \<longrightarrow> c \<noteq> [])"
proof (intro conjI impI)
  show "extractForwardedText None = None" "extractForwardedText (Some []) = None"
    by (simp_all add: extractForwardedText_def truthy_def)
next
  assume h: "markers = earlier @ m # later \<and> (\<forall>m' \<in> set earlier. \<not> js_includes t m') \<and>
    firstOccurrence t p m r \<and> list_all is_space p"
  then have "m \<in> set markers" by (metis in_set_conv_decomp)
  then have m: "m \<noteq> []" by (rule markers_nonempty)
  with h have "t \<noteq> []" by (auto simp: firstOccurrence_def)
  then have "extractForwardedText (Some t) = scanMarkers (earlier @ m # later) t"
    using h by (simp add: extractForwardedText_def truthy_def)
  also have "\<dots> = scanMarkers (m # later) t"
    using h by (intro scanMarkers_skip) simp
  also have "\<dots> = (if js_trim p = [] then None else Some (normalizeComment (js_trim p)))"
  proof (rule scanMarkers_found [OF m])
    from h show "firstOccurrence t p m r" by simp
  qed
  finally show "extractForwardedText (Some t) = None"
    using h by (simp add: js_trim_blank)
next
  assume "extractForwardedText x = Some c"
  then show "c \<noteq> []"
    by (auto simp: extractForwardedText_def dest: scanMarkers_nonempty split: if_splits)
qed

theorem extractForwardedText_null_witness:
  "extractForwardedText (Some blankBeforeMarker) = None \<and>
   extractForwardedText (Some forwardedExample) \<noteq> Some []"
proof -
  have mk: "markers = [] @ markers ! 0 # tl markers" by (simp add: markers_def)
  have f: "firstOccurrence blankBeforeMarker (js '' '' @ [0x0A]) (markers ! 0)
      ([0x0A] @ js ''From: a@b.c'')"
  proof (rule firstOccurrence_split_first)
    show "markers ! 0 \<noteq> []" by (simp add: markers_def js_def)
    show "split_first (markers ! 0) blankBeforeMarker =
        Some (js '' '' @ [0x0A], [0x0A] @ js ''From: a@b.c'')"
      by (simp add: blankBeforeMarker_def markers_def js_def)
  qed
  have b: "list_all is_space (js '' '' @ [0x0A])" by (simp add: js_def is_space_def)
  have a: "extractForwardedText (Some blankBeforeMarker) = None"
    using extractForwardedText_null
      [of "[]" "markers ! 0" "tl markers" blankBeforeMarker "js '' '' @ [0x0A]"
        "[0x0A] @ js ''From: a@b.c''"]
      mk f b
    by simp
  have c: "extractForwardedText (Some forwardedExample) \<noteq> Some []"
    using extractForwardedText_null [of _ _ _ _ _ _ "Some forwardedExample" "[]"] by blast
  from a c show ?thesis by simp
qed



theorem leading_marker_counterexample:
  "prefix (markers ! 1) leadingMarker \<and>
   extractForwardedText (Some leadingMarker) =
     Some (js ''---------- Forwarded Message ---------- see below'')"
  by (simp add: leadingMarker_def eval_extract eval_js)

section \<open>Escaping\<close>









end
